theory Spec2Isabelle
  imports Main
begin

section \<open>Watching a transaction for confirmations (web3-eth)\<close>

text \<open>
  A shallow embedding of
  \<^verbatim>\<open>packages/web3-eth/src/utils/watch_transaction_for_confirmations.ts\<close>.

  The source is event driven: a timer callback (\<^verbatim>\<open>setInterval\<close>) that awaits a block
  fetch, the handlers of a \<^verbatim>\<open>newHeads\<close> subscription, and the settlement of the
  subscribe promise. Each piece of code that runs without suspension is a function from
  the observer's state and the environment's input to the new state and the list of
  effects it performs, in program order. A watch is then a state machine over the inputs
  the environment delivers, in any order the environment likes: a tick may fire while
  earlier fetches are still outstanding, and headers and errors may arrive while an
  unsubscribe call is still outstanding.
\<close>

subsection \<open>Data\<close>

type_synonym HexString32Bytes = string
type_synonym Bytes = string

text \<open>
  \<^verbatim>\<open>ReceiptInfo\<close>: the two fields the file reads. Both are optional in JavaScript
  (\<^verbatim>\<open>undefined\<close>/\<^verbatim>\<open>null\<close> is \<open>None\<close>); the block number is a number or bigint.
\<close>

record ReceiptInfo =
  blockHash :: "HexString32Bytes option"
  blockNumber :: "int option"

text \<open>\<^verbatim>\<open>BlockOutput\<close>: a block or block header as the block source returns it.\<close>

record BlockOutput =
  number :: "int option"
  hash :: "HexString32Bytes option"
  parentHash :: "HexString32Bytes option"

text \<open>
  \<^verbatim>\<open>DataFormat\<close>: the representation the caller asks \<^verbatim>\<open>format\<close> for. The file only
  passes it on.
\<close>

datatype DataFormat = FMT_HEX | FMT_NUMBER | FMT_STR | FMT_BIGINT

text \<open>
  \<^verbatim>\<open>Web3Context\<close>: the configuration the file reads. \<open>supportsSubscriptions\<close> is the
  answer of \<^verbatim>\<open>requestManager.provider.supportsSubscriptions()\<close>; \<open>subscriptionManager\<close>
  tells whether the optional subscription manager is there
  (\<^verbatim>\<open>web3Context.subscriptionManager?.subscribe\<close>).
\<close>

record Web3Context =
  transactionConfirmationBlocks :: int
  transactionPollingInterval :: nat
  transactionReceiptPollingInterval :: "nat option"
  supportsSubscriptions :: bool
  subscriptionManager :: bool

text \<open>\<^verbatim>\<open>WaitProps\<close>; the emitter (\<^verbatim>\<open>Web3PromiEvent\<close>) is known by its identity.\<close>

record WaitProps =
  web3Context :: Web3Context
  transactionReceipt :: ReceiptInfo
  transactionWeb3PromiEvent :: nat
  returnFormat :: DataFormat

text \<open>The payload of a \<^verbatim>\<open>'confirmation'\<close> event.\<close>

record ConfirmationEvent =
  confirmationNumber :: int
  receipt :: ReceiptInfo
  latestBlockHash :: "HexString32Bytes option"

datatype error =
  TransactionMissingReceiptOrBlockHashError "ReceiptInfo option" "HexString32Bytes option"
      "HexString32Bytes option"
  | TransactionReceiptMissingBlockNumberError ReceiptInfo
  | SubscriptionError ReceiptInfo
  | TypeError
  | RpcError

text \<open>
  \<open>TypeError\<close> is the JavaScript runtime's; \<open>RpcError\<close> stands for whatever a failed
  request (a block fetch, an unsubscribe call) rejects with.
\<close>

text \<open>
  What a callback does to the outside, in program order. \<open>Throw\<close> is an exception raised
  inside a detached asynchronous context (an unhandled rejection): no caller catches it.
\<close>

datatype effect =
  SetInterval nat
  | ClearInterval
  | GetBlockByNumber int
  | Emit nat ConfirmationEvent
  | SetImmediate
  | Subscribe
  | Unsubscribe
  | Throw error

subsection \<open>JavaScript values\<close>

text \<open>\<^verbatim>\<open>!x\<close> on an optional number: absent, \<^verbatim>\<open>0\<close> and \<^verbatim>\<open>0n\<close> are falsy.\<close>

definition truthy_number :: "int option \<Rightarrow> bool" where
  "truthy_number x = (case x of None \<Rightarrow> False | Some v \<Rightarrow> v \<noteq> 0)"

text \<open>Truthiness of an optional string: absent and the empty string are falsy.\<close>

definition truthy_string :: "string option \<Rightarrow> bool" where
  "truthy_string x = (case x of None \<Rightarrow> False | Some v \<Rightarrow> v \<noteq> [])"

text \<open>\<^verbatim>\<open>nextBlock?.hash\<close>: optional chaining on a block that may be \<^verbatim>\<open>null\<close>.\<close>

definition opt_hash :: "BlockOutput option \<Rightarrow> HexString32Bytes option" where
  "opt_hash b = (case b of None \<Rightarrow> None | Some blk \<Rightarrow> hash blk)"

text \<open>\<^verbatim>\<open>data?.number\<close>.\<close>

definition opt_number :: "BlockOutput option \<Rightarrow> int option" where
  "opt_number b = (case b of None \<Rightarrow> None | Some blk \<Rightarrow> number blk)"

text \<open>
  Modelled from the spec: \<^verbatim>\<open>format\<close> of web3-common is not part of this file (``value
  formatting/encoding utilities'' are external collaborators). It re-encodes a value in
  the representation \<open>returnFormat\<close> asks for; the model keeps the value.
\<close>

definition format_uint :: "int \<Rightarrow> DataFormat \<Rightarrow> int" where
  "format_uint v fmt = v"

definition format_bytes32 :: "string option \<Rightarrow> DataFormat \<Rightarrow> string option" where
  "format_bytes32 v fmt = v"

subsection \<open>The polling observer\<close>

text \<open>
  \<^verbatim>\<open>transactionReceiptPollingInterval ?? transactionPollingInterval\<close>.
\<close>

definition pollingInterval :: "Web3Context \<Rightarrow> nat" where
  "pollingInterval ctx =
     (case transactionReceiptPollingInterval ctx of
        None \<Rightarrow> transactionPollingInterval ctx
      | Some i \<Rightarrow> i)"

text \<open>
  The \<^verbatim>\<open>setInterval\<close> callback of \<^verbatim>\<open>watchByPolling\<close> is an asynchronous function
  with one \<^verbatim>\<open>await\<close>. Its first half runs when the interval fires, on the counter \<open>cn\<close>
  (the captured \<^verbatim>\<open>confirmationNumber\<close>) as it is then. It returns whether the interval
  is still set, whether a fetch was sent, and the effects.
  \<^item> \<^verbatim>\<open>if (confirmationNumber >= ...transactionConfirmationBlocks) clearInterval(intervalId);\<close>
    has no \<^verbatim>\<open>return\<close>: the callback goes on.
  \<^item> \<^verbatim>\<open>BigInt(transactionReceipt.blockNumber)\<close> throws a TypeError on an absent number.
  \<^item> the block is requested at \<^verbatim>\<open>blockNumber + confirmationNumber\<close>.
\<close>

definition interval_callback_begin :: "WaitProps \<Rightarrow> int \<Rightarrow> bool \<times> bool \<times> effect list" where
  "interval_callback_begin props cn =
     (let stop = (cn \<ge> transactionConfirmationBlocks (web3Context props));
          cleared = (if stop then [ClearInterval] else [])
      in case blockNumber (transactionReceipt props) of
           None \<Rightarrow> (\<not> stop, False, cleared @ [Throw TypeError])
         | Some b \<Rightarrow> (\<not> stop, True, cleared @ [GetBlockByNumber (b + cn)]))"

text \<open>
  Its second half runs when the fetch has resolved with \<open>nextBlock\<close> (\<^verbatim>\<open>null\<close> is
  \<open>None\<close>), on the counter as it is by then:
  \<^verbatim>\<open>if (nextBlock?.hash) { confirmationNumber += 1; emit(...) }\<close>. It returns the new
  counter and the effects.
\<close>

definition interval_callback_resume ::
  "WaitProps \<Rightarrow> BlockOutput option \<Rightarrow> int \<Rightarrow> int \<times> effect list" where
  "interval_callback_resume props nextBlock cn =
     (if truthy_string (opt_hash nextBlock)
      then (cn + 1,
            [Emit (transactionWeb3PromiEvent props)
               \<lparr>confirmationNumber = format_uint (cn + 1) (returnFormat props),
                receipt = transactionReceipt props,
                latestBlockHash = format_bytes32 (opt_hash nextBlock) (returnFormat props)\<rparr>])
      else (cn, []))"

subsection \<open>The subscription observer\<close>

text \<open>
  The \<^verbatim>\<open>'data'\<close> handler of \<^verbatim>\<open>watchBySubscription\<close> on one header. It returns whether
  it called \<^verbatim>\<open>subscription.unsubscribe()\<close>, and the effects.
\<close>

definition on_data :: "WaitProps \<Rightarrow> BlockOutput option \<Rightarrow> bool \<times> effect list" where
  "on_data props data =
     (if \<not> truthy_number (opt_number data) then (False, [])
      else case (opt_number data, blockNumber (transactionReceipt props)) of
             (Some n, Some b) \<Rightarrow>
               (let cn = n - b + 1;
                    emitted =
                      [Emit (transactionWeb3PromiEvent props)
                         \<lparr>confirmationNumber = format_uint cn (returnFormat props),
                          receipt = transactionReceipt props,
                          latestBlockHash =
                            format_bytes32 (case data of None \<Rightarrow> None | Some d \<Rightarrow> parentHash d)
                              (returnFormat props)\<rparr>]
                in if cn \<ge> transactionConfirmationBlocks (web3Context props)
                   then (True, emitted @ [Unsubscribe])
                   else (False, emitted))
           | _ \<Rightarrow> (False, [Throw TypeError]))"

subsection \<open>A watch as a state machine\<close>

text \<open>
  A handler of the subscription that has called \<^verbatim>\<open>subscription.unsubscribe()\<close> and is
  suspended at its \<^verbatim>\<open>await\<close>: the data handler has nothing left to do when the call
  settles, the error handler goes on to call \<^verbatim>\<open>watchByPolling\<close>.
\<close>

datatype suspended = DataHandler | ErrorHandler

text \<open>
  A polling observer: the counter (the \<^verbatim>\<open>confirmationNumber\<close> its callbacks share),
  whether its interval is still set, and how many of its callbacks wait for their fetch.
\<close>

type_synonym poller = "int \<times> bool \<times> nat"

text \<open>
  The states of one watch.
  \<^item> \<open>Scheduled\<close>: \<^verbatim>\<open>watchBySubscription\<close> returned, its \<^verbatim>\<open>setImmediate\<close> callback is
    pending. \<open>Subscribing\<close>: the subscribe request is outstanding. \<open>Rejected\<close>: the
    subscribe request failed. \<open>Idle\<close>: there was no subscription manager, nothing was
    started.
  \<^item> \<open>Observing props listening waiting pollers\<close>: the observers of the watch are at work.
    \<open>listening\<close> tells whether the subscription still calls the two handlers; \<open>waiting\<close>
    holds the handlers suspended at \<^verbatim>\<open>await subscription.unsubscribe()\<close>, in the order of
    their calls; \<open>pollers\<close> holds the polling observers started so far, in the order of
    their start. The handlers keep no state and check no flag, so every header and every
    error delivered while the subscription is listening runs its handler in full, also
    when an unsubscribe call is already outstanding; every error handler that gets past
    its \<^verbatim>\<open>await\<close> starts a polling observer of its own.
  \<^item> \<open>Subscribed props\<close> is the watch right after the handlers were registered, and
    \<open>Polling props cn running pending\<close> the watch that \<^verbatim>\<open>watchByPolling\<close> alone started:
    one polling observer and no subscription.
\<close>

datatype watch =
  Scheduled WaitProps
  | Subscribing WaitProps
  | Rejected
  | Idle
  | Observing WaitProps bool "suspended list" "poller list"

abbreviation Subscribed :: "WaitProps \<Rightarrow> watch" where
  "Subscribed props \<equiv> Observing props True [] []"

abbreviation Polling :: "WaitProps \<Rightarrow> int \<Rightarrow> bool \<Rightarrow> nat \<Rightarrow> watch" where
  "Polling props cn running pending \<equiv> Observing props False [] [(cn, running, pending)]"

text \<open>
  What the environment delivers: the immediate callback, the settlement of the subscribe
  promise, a header or an error on the subscription, the settlement of the \<open>k\<close>-th
  outstanding unsubscribe call, a firing of the interval of the \<open>k\<close>-th polling observer,
  and the block source's answer to that observer's oldest outstanding fetch, or its
  failure. \<open>Tick\<close>, \<open>Fetched\<close> and \<open>FetchRejected\<close> address the first polling observer, the
  only one of a watch that started by polling.
\<close>

datatype input =
  Immediate
  | SubscribeResolved
  | SubscribeRejected
  | OnData "BlockOutput option"
  | OnError
  | UnsubscribeResolved nat
  | UnsubscribeRejected nat
  | TickOf nat
  | FetchedOf nat "BlockOutput option"
  | FetchRejectedOf nat

abbreviation Tick :: input where
  "Tick \<equiv> TickOf 0"

abbreviation Fetched :: "BlockOutput option \<Rightarrow> input" where
  "Fetched nextBlock \<equiv> FetchedOf 0 nextBlock"

abbreviation FetchRejected :: input where
  "FetchRejected \<equiv> FetchRejectedOf 0"

definition watchByPolling :: "WaitProps \<Rightarrow> watch \<times> effect list" where
  "watchByPolling props =
     (Polling props 1 True 0, [SetInterval (pollingInterval (web3Context props))])"

definition watchBySubscription :: "WaitProps \<Rightarrow> watch \<times> effect list" where
  "watchBySubscription props = (Scheduled props, [SetImmediate])"

text \<open>The polling observers of a watch; a list without its \<open>k\<close>-th element.\<close>

fun pollers_of :: "watch \<Rightarrow> poller list" where
  "pollers_of (Observing props listening waiting pollers) = pollers"
| "pollers_of _ = []"

definition without :: "nat \<Rightarrow> 'a list \<Rightarrow> 'a list" where
  "without k xs = take k xs @ drop (Suc k) xs"

text \<open>
  One polling observer on an input addressed to it. An interval fires only while it is
  set; a fetch that was sent settles whether or not the interval has been cleared since.
  When it is rejected, the callback's second half does not run and the rejection is left
  unhandled (the callback's promise is discarded).
\<close>

fun poller_step :: "WaitProps \<Rightarrow> poller \<Rightarrow> input \<Rightarrow> poller \<times> effect list" where
  "poller_step props (cn, True, pending) (TickOf k) =
     (case interval_callback_begin props cn of
        (running, requested, effs) \<Rightarrow>
          ((cn, running, if requested then Suc pending else pending), effs))"
| "poller_step props (cn, running, Suc pending) (FetchedOf k nextBlock) =
     (case interval_callback_resume props nextBlock cn of
        (cn', effs) \<Rightarrow> ((cn', running, pending), effs))"
| "poller_step props (cn, running, Suc pending) (FetchRejectedOf k) =
     ((cn, running, pending), [Throw RpcError])"
| "poller_step props p _ = (p, [])"

text \<open>The input goes to the \<open>k\<close>-th polling observer, when there is one.\<close>

definition deliver ::
  "WaitProps \<Rightarrow> poller list \<Rightarrow> nat \<Rightarrow> input \<Rightarrow> poller list \<times> effect list" where
  "deliver props pollers k i =
     (if k < length pollers
      then (case poller_step props (pollers ! k) i of (p, effs) \<Rightarrow> (pollers[k := p], effs))
      else (pollers, []))"

text \<open>
  Modelled from the spec: the \<^verbatim>\<open>Subscription\<close> class is not part of this file.
  ``Subscription (external, stateful): lifecycle active \<open>\<rightarrow>\<close> unsubscribed'', with
  ``awaiting unsubscribe acknowledgment'' a suspension point: the subscription goes on
  calling its handlers until an unsubscribe call is acknowledged, and calls them no more
  from then on; a rejected unsubscribe call leaves it as it was. The handler that awaited
  the call resumes when the call resolves; when the call is rejected the handler ends
  there and the rejection is left unhandled.

  The steps of a watch: the \<^verbatim>\<open>setImmediate\<close> callback, the \<^verbatim>\<open>then\<close> and \<^verbatim>\<open>catch\<close>
  callbacks of the subscribe promise, the two handlers up to their \<^verbatim>\<open>await\<close>, what
  follows that \<^verbatim>\<open>await\<close>, and the polling observers. An input that has no receiver in
  the current state is dropped.
\<close>

fun step :: "watch \<Rightarrow> input \<Rightarrow> watch \<times> effect list" where
  "step (Scheduled props) Immediate =
     (if subscriptionManager (web3Context props)
      then (Subscribing props, [Subscribe])
      else (Idle, []))"
| "step (Subscribing props) SubscribeResolved = (Subscribed props, [])"
| "step (Subscribing props) SubscribeRejected =
     (Rejected, [Throw (SubscriptionError (transactionReceipt props))])"
| "step (Observing props True waiting pollers) (OnData data) =
     (case on_data props data of
        (unsubscribed, effs) \<Rightarrow>
          (Observing props True (if unsubscribed then waiting @ [DataHandler] else waiting)
             pollers, effs))"
| "step (Observing props True waiting pollers) OnError =
     (Observing props True (waiting @ [ErrorHandler]) pollers, [Unsubscribe])"
| "step (Observing props listening waiting pollers) (UnsubscribeResolved k) =
     (if k < length waiting
      then (case waiting ! k of
              DataHandler \<Rightarrow> (Observing props False (without k waiting) pollers, [])
            | ErrorHandler \<Rightarrow>
                (case watchByPolling props of
                   (w, effs) \<Rightarrow>
                     (Observing props False (without k waiting) (pollers @ pollers_of w),
                      effs)))
      else (Observing props listening waiting pollers, []))"
| "step (Observing props listening waiting pollers) (UnsubscribeRejected k) =
     (if k < length waiting
      then (Observing props listening (without k waiting) pollers, [Throw RpcError])
      else (Observing props listening waiting pollers, []))"
| "step (Observing props listening waiting pollers) (TickOf k) =
     (case deliver props pollers k (TickOf k) of
        (pollers', effs) \<Rightarrow> (Observing props listening waiting pollers', effs))"
| "step (Observing props listening waiting pollers) (FetchedOf k nextBlock) =
     (case deliver props pollers k (FetchedOf k nextBlock) of
        (pollers', effs) \<Rightarrow> (Observing props listening waiting pollers', effs))"
| "step (Observing props listening waiting pollers) (FetchRejectedOf k) =
     (case deliver props pollers k (FetchRejectedOf k) of
        (pollers', effs) \<Rightarrow> (Observing props listening waiting pollers', effs))"
| "step w _ = (w, [])"

fun run :: "watch \<Rightarrow> input list \<Rightarrow> watch \<times> effect list" where
  "run w [] = (w, [])"
| "run w (i # ins) =
     (case step w i of
        (w', effs) \<Rightarrow> (case run w' ins of (w'', effs') \<Rightarrow> (w'', effs @ effs')))"

subsection \<open>The entry point\<close>

text \<open>
  \<^verbatim>\<open>watchTransactionForConfirmations\<close>. A thrown error is \<open>Inl\<close>; otherwise the watch
  that was started and the effects of starting it. The receipt may be absent at run time
  (the code tests \<^verbatim>\<open>isNullish(transactionReceipt)\<close>); building the first error's payload
  reads \<^verbatim>\<open>transactionReceipt.blockHash\<close>, which throws a TypeError on an absent receipt.
\<close>

definition watchTransactionForConfirmations ::
  "Web3Context \<Rightarrow> nat \<Rightarrow> ReceiptInfo option \<Rightarrow> Bytes \<Rightarrow> DataFormat
     \<Rightarrow> error + (watch \<times> effect list)" where
  "watchTransactionForConfirmations ctx promiEvent rcpt txHash fmt =
     (case rcpt of
        None \<Rightarrow> Inl TypeError
      | Some r \<Rightarrow>
          if blockHash r = None
          then Inl (TransactionMissingReceiptOrBlockHashError (Some r)
                      (format_bytes32 (blockHash r) fmt) (format_bytes32 (Some txHash) fmt))
          else if \<not> truthy_number (blockNumber r)
          then Inl (TransactionReceiptMissingBlockNumberError r)
          else
            (let props = \<lparr>web3Context = ctx, transactionReceipt = r,
                          transactionWeb3PromiEvent = promiEvent, returnFormat = fmt\<rparr>
             in if supportsSubscriptions ctx
                then Inr (watchBySubscription props)
                else Inr (watchByPolling props)))"

text \<open>The whole life of a watch: the call, then the inputs the environment delivers.\<close>

definition watch_run ::
  "Web3Context \<Rightarrow> nat \<Rightarrow> ReceiptInfo option \<Rightarrow> Bytes \<Rightarrow> DataFormat \<Rightarrow> input list
     \<Rightarrow> error + (watch \<times> effect list)" where
  "watch_run ctx promiEvent rcpt txHash fmt ins =
     (case watchTransactionForConfirmations ctx promiEvent rcpt txHash fmt of
        Inl e \<Rightarrow> Inl e
      | Inr (w, effs) \<Rightarrow> (case run w ins of (w', effs') \<Rightarrow> Inr (w', effs @ effs')))"

subsection \<open>Reading a trace\<close>

text \<open>The events emitted, their numbers, and the heights fetched, in order.\<close>

fun emitted :: "effect list \<Rightarrow> ConfirmationEvent list" where
  "emitted [] = []"
| "emitted (Emit e ev # effs) = ev # emitted effs"
| "emitted (_ # effs) = emitted effs"

definition confirmations :: "effect list \<Rightarrow> int list" where
  "confirmations effs = map confirmationNumber (emitted effs)"

fun fetches :: "effect list \<Rightarrow> int list" where
  "fetches [] = []"
| "fetches (GetBlockByNumber h # effs) = h # fetches effs"
| "fetches (_ # effs) = fetches effs"

text \<open>The non-zero heights of the headers among the inputs, in order of delivery.\<close>

fun heights :: "input list \<Rightarrow> int list" where
  "heights [] = []"
| "heights (OnData d # ins) =
     (case opt_number d of
        None \<Rightarrow> heights ins
      | Some n \<Rightarrow> if n = 0 then heights ins else n # heights ins)"
| "heights (_ # ins) = heights ins"

text \<open>
  Who performs an effect: a callback belongs to the observer whose input runs it. The
  handlers of the subscription and what follows their \<^verbatim>\<open>await\<close> belong to the
  subscription observer, the interval callback of the \<open>k\<close>-th polling observer to that
  observer. \<open>run_by\<close> collects the effects one observer performs in a run.
\<close>

datatype observer = SubscriptionObserver | PollingObserver nat

fun performer :: "input \<Rightarrow> observer" where
  "performer (TickOf k) = PollingObserver k"
| "performer (FetchedOf k nextBlock) = PollingObserver k"
| "performer (FetchRejectedOf k) = PollingObserver k"
| "performer _ = SubscriptionObserver"

fun run_by :: "observer \<Rightarrow> watch \<Rightarrow> input list \<Rightarrow> effect list" where
  "run_by ob w [] = []"
| "run_by ob w (i # ins) =
     (case step w i of
        (w', effs) \<Rightarrow> (if performer i = ob then effs else []) @ run_by ob w' ins)"

text \<open>
  The counter of the \<open>k\<close>-th polling observer, or the 1 it will start with when it does
  not exist yet.
\<close>

definition counter_of :: "poller list \<Rightarrow> nat \<Rightarrow> int" where
  "counter_of pollers k = (if k < length pollers then fst (pollers ! k) else 1)"

subsection \<open>Scenarios\<close>

text \<open>
  The receipt of the spec's scenarios (block 100), a context with threshold \<open>t\<close>, and
  the block of height \<open>h\<close> (hashes \<open>H1\<close>, \<open>H2\<close> for 101 and 102, parent hash \<open>P\<close>).
\<close>

definition scenarioReceipt :: ReceiptInfo where
  "scenarioReceipt = \<lparr>blockHash = Some ''0xb100'', blockNumber = Some 100\<rparr>"

definition scenarioContext :: "int \<Rightarrow> bool \<Rightarrow> Web3Context" where
  "scenarioContext t subs =
     \<lparr>transactionConfirmationBlocks = t, transactionPollingInterval = 1000,
      transactionReceiptPollingInterval = None, supportsSubscriptions = subs,
      subscriptionManager = subs\<rparr>"

definition scenarioProps :: "int \<Rightarrow> bool \<Rightarrow> WaitProps" where
  "scenarioProps t subs =
     \<lparr>web3Context = scenarioContext t subs, transactionReceipt = scenarioReceipt,
      transactionWeb3PromiEvent = 7, returnFormat = FMT_HEX\<rparr>"

definition blockAt :: "int \<Rightarrow> BlockOutput" where
  "blockAt h =
     \<lparr>number = Some h,
      hash = Some (if h = 101 then ''H1'' else if h = 102 then ''H2'' else ''H''),
      parentHash = Some ''P''\<rparr>"

section \<open>Properties of the model\<close>

subsection \<open>Traces and runs\<close>

lemma emitted_append: "emitted (xs @ ys) = emitted xs @ emitted ys"
  by (induction xs rule: emitted.induct) simp_all

lemma confirmations_append: "confirmations (xs @ ys) = confirmations xs @ confirmations ys"
  by (simp add: confirmations_def emitted_append)

lemma confirmations_Nil: "confirmations [] = []"
  by (simp add: confirmations_def)

lemma fetches_append: "fetches (xs @ ys) = fetches xs @ fetches ys"
  by (induction xs rule: fetches.induct) simp_all

lemma run_append:
  "run w (xs @ ys) =
     (case run w xs of (w', effs) \<Rightarrow> (case run w' ys of (w'', effs') \<Rightarrow> (w'', effs @ effs')))"
  by (induction xs arbitrary: w) (auto split: prod.splits)

lemma step_Rejected: "step Rejected i = (Rejected, [])"
  by (cases i) simp_all

lemma step_Idle: "step Idle i = (Idle, [])"
  by (cases i) simp_all

lemma run_Rejected: "run Rejected ins = (Rejected, [])"
  by (induction ins) (simp_all add: step_Rejected)

lemma run_Idle: "run Idle ins = (Idle, [])"
  by (induction ins) (simp_all add: step_Idle)

subsection \<open>One polling observer\<close>

text \<open>
  The first half of the callback sends one fetch, at the receipt's block number plus
  the counter, and emits nothing. The second half leaves the counter or adds one to it,
  and emits the new counter exactly when it adds one.
\<close>

lemma interval_callback_begin_fetch:
  assumes "blockNumber (transactionReceipt props) = Some b"
  shows "interval_callback_begin props cn =
     (cn < transactionConfirmationBlocks (web3Context props), True,
      (if transactionConfirmationBlocks (web3Context props) \<le> cn then [ClearInterval] else [])
      @ [GetBlockByNumber (b + cn)])"
  using assms by (auto simp: interval_callback_begin_def Let_def)

lemma interval_callback_begin_quiet:
  assumes "interval_callback_begin props cn = (running, requested, effs)"
  shows "emitted effs = [] \<and> Subscribe \<notin> set effs \<and> Unsubscribe \<notin> set effs
    \<and> (\<forall>r. Throw (SubscriptionError r) \<notin> set effs)
    \<and> (blockNumber (transactionReceipt props) \<noteq> None \<longrightarrow> (\<forall>e. Throw e \<notin> set effs))
    \<and> length (fetches effs) = (if requested then 1 else 0)"
  using assms
  by (auto simp: interval_callback_begin_def Let_def split: option.splits if_splits)

lemma interval_callback_resume_result:
  assumes "interval_callback_resume props nextBlock cn = (cn', effs)"
  shows "((cn' = cn \<and> effs = []) \<or> (cn' = cn + 1 \<and> confirmations effs = [cn + 1] \<and> length effs = 1))
    \<and> fetches effs = [] \<and> Subscribe \<notin> set effs \<and> Unsubscribe \<notin> set effs
    \<and> (\<forall>e. Throw e \<notin> set effs)"
  using assms
  by (auto simp: interval_callback_resume_def confirmations_def format_uint_def split: if_splits)

text \<open>
  One polling observer on one input, whatever is outstanding.
\<close>

lemma poller_step_shape:
  assumes "poller_step props (cn, running, pending) i = ((cn', running', pending'), effs)"
  shows "((cn' = cn \<and> confirmations effs = []) \<or> (cn' = cn + 1 \<and> confirmations effs = [cn + 1]))
     \<and> length (confirmations effs) + pending' \<le> pending + (case i of TickOf k \<Rightarrow> 1 | _ \<Rightarrow> 0)
     \<and> length (fetches effs) \<le> (case i of TickOf k \<Rightarrow> 1 | _ \<Rightarrow> 0)"
proof (cases i)
  case (TickOf k)
  show ?thesis
  proof (cases running)
    case True
    obtain r' rq es where cb: "interval_callback_begin props cn = (r', rq, es)"
      by (cases "interval_callback_begin props cn") auto
    with assms True TickOf
    have "cn' = cn" "pending' = (if rq then Suc pending else pending)" "effs = es"
      by auto
    with interval_callback_begin_quiet [OF cb] TickOf show ?thesis
      by (auto simp: confirmations_def)
  next
    case False
    with assms TickOf show ?thesis by (auto simp: confirmations_Nil)
  qed
next
  case (FetchedOf k nextBlock)
  show ?thesis
  proof (cases pending)
    case 0
    with assms FetchedOf show ?thesis by (auto simp: confirmations_Nil)
  next
    case (Suc p)
    obtain c es where cb: "interval_callback_resume props nextBlock cn = (c, es)"
      by (cases "interval_callback_resume props nextBlock cn") auto
    with assms Suc FetchedOf have "cn' = c" "pending' = p" "effs = es"
      by auto
    with interval_callback_resume_result [OF cb] Suc FetchedOf show ?thesis
      by (auto simp: confirmations_Nil)
  qed
next
  case (FetchRejectedOf k)
  with assms show ?thesis
    by (cases pending) (auto simp: confirmations_def)
qed (use assms in \<open>auto simp: confirmations_Nil\<close>)

lemma poller_step_quiet:
  assumes "poller_step props (cn, running, pending) i = (p', effs)"
  shows "Subscribe \<notin> set effs \<and> Unsubscribe \<notin> set effs
    \<and> (\<forall>r. Throw (SubscriptionError r) \<notin> set effs)
    \<and> (blockNumber (transactionReceipt props) \<noteq> None \<and> (\<forall>k. i \<noteq> FetchRejectedOf k)
         \<longrightarrow> (\<forall>e. Throw e \<notin> set effs))"
proof (cases i)
  case (TickOf k)
  show ?thesis
  proof (cases running)
    case True
    obtain r' rq es where cb: "interval_callback_begin props cn = (r', rq, es)"
      by (cases "interval_callback_begin props cn") auto
    with assms True TickOf have "effs = es" by auto
    with interval_callback_begin_quiet [OF cb] show ?thesis by blast
  next
    case False
    with assms TickOf show ?thesis by auto
  qed
next
  case (FetchedOf k nextBlock)
  show ?thesis
  proof (cases pending)
    case 0
    with assms FetchedOf show ?thesis by auto
  next
    case (Suc p)
    obtain c es where cb: "interval_callback_resume props nextBlock cn = (c, es)"
      by (cases "interval_callback_resume props nextBlock cn") auto
    with assms Suc FetchedOf have "effs = es" by auto
    with interval_callback_resume_result [OF cb] show ?thesis by blast
  qed
next
  case (FetchRejectedOf k)
  with assms show ?thesis by (cases pending) auto
qed (use assms in auto)

text \<open>
  A watch that started by polling has one observer; only the inputs of the first
  polling observer reach it.
\<close>

lemma deliver_single:
  "deliver props [p] k i =
     (if k = 0 then (case poller_step props p i of (p', effs) \<Rightarrow> ([p'], effs)) else ([p], []))"
  by (auto simp: deliver_def split: prod.splits)

lemma step_Polling:
  "step (Polling props cn running pending) i =
     (if performer i = PollingObserver 0
      then (case poller_step props (cn, running, pending) i of
              ((cn', running', pending'), effs) \<Rightarrow> (Polling props cn' running' pending', effs))
      else (Polling props cn running pending, []))"
  by (cases i) (auto simp: deliver_single split: prod.splits)

lemma step_Polling_shape:
  assumes "step (Polling props cn running pending) i = (w, effs)"
  shows "\<exists>cn' running' pending'. w = Polling props cn' running' pending'
     \<and> ((cn' = cn \<and> confirmations effs = []) \<or> (cn' = cn + 1 \<and> confirmations effs = [cn + 1]))
     \<and> length (confirmations effs) + pending' \<le> pending + (if i = Tick then 1 else 0)
     \<and> length (fetches effs) \<le> (if i = Tick then 1 else 0)"
proof (cases "performer i = PollingObserver 0")
  case False
  with assms show ?thesis
    by (auto simp: step_Polling confirmations_Nil)
next
  case True
  obtain cn' r' p' es where ps: "poller_step props (cn, running, pending) i = ((cn', r', p'), es)"
    by (cases "poller_step props (cn, running, pending) i") auto
  with assms True have w: "w = Polling props cn' r' p'" "effs = es"
    by (auto simp: step_Polling)
  from True have "(case i of TickOf k \<Rightarrow> 1 | _ \<Rightarrow> 0) = (if i = Tick then 1 else (0::nat))"
    by (cases i) auto
  with poller_step_shape [OF ps] w show ?thesis by auto
qed

lemma step_Polling_quiet:
  assumes "step (Polling props cn running pending) i = (w, effs)"
  shows "Subscribe \<notin> set effs \<and> Unsubscribe \<notin> set effs
    \<and> (\<forall>r. Throw (SubscriptionError r) \<notin> set effs)
    \<and> (blockNumber (transactionReceipt props) \<noteq> None \<and> i \<noteq> FetchRejected
         \<longrightarrow> (\<forall>e. Throw e \<notin> set effs))"
proof (cases "performer i = PollingObserver 0")
  case False
  with assms show ?thesis
    by (auto simp: step_Polling)
next
  case True
  obtain p' es where ps: "poller_step props (cn, running, pending) i = (p', es)"
    by (cases "poller_step props (cn, running, pending) i") auto
  with assms True have w: "effs = es"
    by (auto simp: step_Polling split: prod.splits)
  from True have "i \<noteq> FetchRejected \<longrightarrow> (\<forall>k. i \<noteq> FetchRejectedOf k)"
    by (cases i) auto
  with poller_step_quiet [OF ps] w show ?thesis by blast
qed

text \<open>
  A cleared interval never fires again: a stopped polling observer with no fetch
  outstanding takes no input.
\<close>

lemma step_Polling_stopped:
  "step (Polling props cn False 0) i = (Polling props cn False 0, [])"
  by (cases i) (simp_all add: deliver_single)

lemma run_Polling_stopped:
  "run (Polling props cn False 0) ins = (Polling props cn False 0, [])"
  by (induction ins) (simp_all add: step_Polling_stopped del: step.simps)

text \<open>
  Over any run, whatever the interleaving of ticks and answers, the polling observer
  keeps its props, its counter never decreases, the numbers it emits are strictly
  increasing and above the counter it started from, and it emits and fetches no more
  often than the interval fired (plus the fetches that were outstanding at the start).
\<close>

lemma run_Polling_monotone:
  assumes "run (Polling props cn running pending) ins = (w, effs)"
  shows "\<exists>cn' running' pending'. w = Polling props cn' running' pending' \<and> cn \<le> cn'
     \<and> sorted_wrt (<) (confirmations effs)
     \<and> (\<forall>c \<in> set (confirmations effs). cn < c \<and> c \<le> cn')
     \<and> cn' = cn + int (length (confirmations effs))
     \<and> length (confirmations effs) + pending' \<le> pending + count_list ins Tick
     \<and> length (fetches effs) \<le> count_list ins Tick"
  using assms
proof (induction ins arbitrary: cn running pending w effs)
  case Nil
  then show ?case by (auto simp: confirmations_Nil)
next
  case (Cons i ins)
  obtain w1 e1 where s: "step (Polling props cn running pending) i = (w1, e1)"
    by (cases "step (Polling props cn running pending) i") auto
  from step_Polling_shape [OF s] obtain cn1 r1 p1 where
    w1: "w1 = Polling props cn1 r1 p1" and
    c1: "(cn1 = cn \<and> confirmations e1 = []) \<or> (cn1 = cn + 1 \<and> confirmations e1 = [cn + 1])" and
    n1: "length (confirmations e1) + p1 \<le> pending + (if i = Tick then 1 else 0)" and
    f1: "length (fetches e1) \<le> (if i = Tick then 1 else 0)"
    by blast
  obtain w2 e2 where r: "run (Polling props cn1 r1 p1) ins = (w2, e2)"
    by (cases "run (Polling props cn1 r1 p1) ins") auto
  from Cons.IH [OF r] obtain cn2 r2 p2 where
    w2: "w2 = Polling props cn2 r2 p2" and le: "cn1 \<le> cn2" and
    srt: "sorted_wrt (<) (confirmations e2)" and
    bnd: "\<forall>c \<in> set (confirmations e2). cn1 < c \<and> c \<le> cn2" and
    cnt: "cn2 = cn1 + int (length (confirmations e2))" and
    n2: "length (confirmations e2) + p2 \<le> p1 + count_list ins Tick" and
    f2: "length (fetches e2) \<le> count_list ins Tick"
    by blast
  from Cons.prems s w1 r have res: "w = w2" "effs = e1 @ e2"
    by (auto simp del: step.simps)
  have budget: "length (confirmations effs) + p2 \<le> pending + count_list (i # ins) Tick"
    using res n1 n2 by (auto simp: confirmations_append split: if_splits)
  have fet: "length (fetches effs) \<le> count_list (i # ins) Tick"
    using res f1 f2 by (auto simp: fetches_append split: if_splits)
  from c1 show ?case
  proof
    assume "cn1 = cn \<and> confirmations e1 = []"
    with res w2 le srt bnd cnt budget fet show ?thesis
      by (auto simp: confirmations_append)
  next
    assume "cn1 = cn + 1 \<and> confirmations e1 = [cn + 1]"
    with res w2 le srt bnd cnt budget fet show ?thesis
      by (fastforce simp: confirmations_append)
  qed
qed

lemma run_Polling_state:
  "\<exists>cn' running' pending'.
     fst (run (Polling props cn running pending) ins) = Polling props cn' running' pending'"
proof -
  obtain w effs where r: "run (Polling props cn running pending) ins = (w, effs)"
    by (cases "run (Polling props cn running pending) ins") auto
  from run_Polling_monotone [OF r] r show ?thesis by auto
qed

lemma run_Polling_quiet:
  assumes "run (Polling props cn running pending) ins = (w, effs)"
  shows "Subscribe \<notin> set effs \<and> Unsubscribe \<notin> set effs
    \<and> (\<forall>r. Throw (SubscriptionError r) \<notin> set effs)
    \<and> (blockNumber (transactionReceipt props) \<noteq> None \<and> FetchRejected \<notin> set ins
         \<longrightarrow> (\<forall>e. Throw e \<notin> set effs))"
  using assms
proof (induction ins arbitrary: cn running pending w effs)
  case Nil
  then show ?case by auto
next
  case (Cons i ins)
  obtain w1 e1 where s: "step (Polling props cn running pending) i = (w1, e1)"
    by (cases "step (Polling props cn running pending) i") auto
  from step_Polling_shape [OF s] obtain cn1 r1 p1 where w1: "w1 = Polling props cn1 r1 p1"
    by blast
  obtain w2 e2 where r: "run (Polling props cn1 r1 p1) ins = (w2, e2)"
    by (cases "run (Polling props cn1 r1 p1) ins") auto
  from Cons.prems s w1 r have res: "effs = e1 @ e2"
    by (auto simp del: step.simps)
  from step_Polling_quiet [OF s] Cons.IH [OF r] res show ?case by auto
qed

subsection \<open>The observers together\<close>

text \<open>
  The data handler on a header that lacks a height, and on one that has one.
\<close>

lemma on_data_ignored:
  assumes "\<not> truthy_number (opt_number data)"
  shows "on_data props data = (False, [])"
  using assms by (simp add: on_data_def)

lemma on_data_header:
  assumes "blockNumber (transactionReceipt props) = Some b"
    and "number hdr = Some h" and "h \<noteq> 0"
  shows "on_data props (Some hdr) =
     (transactionConfirmationBlocks (web3Context props) \<le> h - b + 1,
      Emit (transactionWeb3PromiEvent props)
        \<lparr>confirmationNumber = h - b + 1, receipt = transactionReceipt props,
         latestBlockHash = parentHash hdr\<rparr>
      # (if transactionConfirmationBlocks (web3Context props) \<le> h - b + 1
         then [Unsubscribe] else []))"
  using assms
  by (simp add: on_data_def truthy_number_def opt_number_def format_uint_def format_bytes32_def
      Let_def)

lemma on_data_quiet:
  assumes "on_data props data = (u, effs)"
  shows "Subscribe \<notin> set effs \<and> (\<forall>r. Throw (SubscriptionError r) \<notin> set effs)"
  using assms
  by (auto simp: on_data_def Let_def split: if_splits option.splits)

text \<open>
  An input for the \<open>k\<close>-th polling observer moves that observer only.
\<close>

lemma deliver_quiet:
  assumes "deliver props pollers k i = (pollers', effs)"
  shows "Subscribe \<notin> set effs \<and> Unsubscribe \<notin> set effs
    \<and> (\<forall>r. Throw (SubscriptionError r) \<notin> set effs)"
proof (cases "k < length pollers")
  case False
  with assms show ?thesis by (simp add: deliver_def)
next
  case True
  obtain cn r p where pk: "pollers ! k = (cn, r, p)"
    by (cases "pollers ! k") auto
  obtain p' es where ps: "poller_step props (cn, r, p) i = (p', es)"
    by (cases "poller_step props (cn, r, p) i") auto
  with assms True pk have "effs = es" by (simp add: deliver_def)
  with poller_step_quiet [OF ps] show ?thesis by blast
qed

lemma deliver_counter:
  assumes "deliver props pollers k i = (pollers', effs)"
  shows "(\<forall>j. j \<noteq> k \<longrightarrow> counter_of pollers' j = counter_of pollers j)
    \<and> ((counter_of pollers' k = counter_of pollers k \<and> confirmations effs = [])
       \<or> (counter_of pollers' k = counter_of pollers k + 1
          \<and> confirmations effs = [counter_of pollers k + 1]))"
proof (cases "k < length pollers")
  case False
  with assms show ?thesis by (auto simp: deliver_def confirmations_Nil)
next
  case True
  obtain cn r p where pk: "pollers ! k = (cn, r, p)"
    by (cases "pollers ! k") auto
  obtain cn' r' p' es where ps: "poller_step props (cn, r, p) i = ((cn', r', p'), es)"
    by (cases "poller_step props (cn, r, p) i") auto
  with assms True pk have res: "pollers' = pollers[k := (cn', r', p')]" "effs = es"
    by (simp_all add: deliver_def)
  from True pk have c0: "counter_of pollers k = cn"
    by (simp add: counter_of_def)
  from True res have c1: "counter_of pollers' k = cn'"
    by (simp add: counter_of_def)
  from res have others: "\<forall>j. j \<noteq> k \<longrightarrow> counter_of pollers' j = counter_of pollers j"
    by (simp add: counter_of_def)
  from poller_step_shape [OF ps] res c0 c1 others show ?thesis by auto
qed

text \<open>
  Whatever a watch that is observing is given, it goes on observing on the same props;
  a subscription that has stopped calling its handlers does not start again.
\<close>

lemma step_Observing_shape:
  assumes "step (Observing props listening waiting pollers) i = (w, effs)"
  shows "\<exists>listening' waiting' pollers'. w = Observing props listening' waiting' pollers'
     \<and> (\<not> listening \<longrightarrow> \<not> listening')
     \<and> Subscribe \<notin> set effs \<and> (\<forall>r. Throw (SubscriptionError r) \<notin> set effs)
     \<and> (\<not> listening \<longrightarrow> Unsubscribe \<notin> set effs)
     \<and> (\<not> listening \<and> performer i = SubscriptionObserver \<longrightarrow> emitted effs = [])"
proof (cases i)
  case (OnData data)
  obtain u es where od: "on_data props data = (u, es)"
    by (cases "on_data props data") auto
  with assms OnData on_data_quiet [OF od] show ?thesis
    by (cases listening) auto
next
  case OnError
  with assms show ?thesis by (cases listening) auto
next
  case (UnsubscribeResolved k)
  with assms show ?thesis
    by (auto simp: watchByPolling_def split: if_splits suspended.splits)
next
  case (UnsubscribeRejected k)
  with assms show ?thesis by (auto split: if_splits)
next
  case (TickOf k)
  obtain ps es where d: "deliver props pollers k (TickOf k) = (ps, es)"
    by (cases "deliver props pollers k (TickOf k)") auto
  with assms TickOf deliver_quiet [OF d] show ?thesis by auto
next
  case (FetchedOf k nextBlock)
  obtain ps es where d: "deliver props pollers k (FetchedOf k nextBlock) = (ps, es)"
    by (cases "deliver props pollers k (FetchedOf k nextBlock)") auto
  with assms FetchedOf deliver_quiet [OF d] show ?thesis by auto
next
  case (FetchRejectedOf k)
  obtain ps es where d: "deliver props pollers k (FetchRejectedOf k) = (ps, es)"
    by (cases "deliver props pollers k (FetchRejectedOf k)") auto
  with assms FetchRejectedOf deliver_quiet [OF d] show ?thesis by auto
qed (use assms in auto)

text \<open>
  A watch that is observing never subscribes again and raises no subscription error.
\<close>

lemma run_Observing_one_way:
  "(\<exists>listening' waiting' pollers'.
      fst (run (Observing props listening waiting pollers) ins)
        = Observing props listening' waiting' pollers')
   \<and> Subscribe \<notin> set (snd (run (Observing props listening waiting pollers) ins))
   \<and> (\<forall>r. Throw (SubscriptionError r)
         \<notin> set (snd (run (Observing props listening waiting pollers) ins)))"
proof (induction ins arbitrary: listening waiting pollers)
  case Nil
  then show ?case by simp
next
  case (Cons i ins)
  obtain w1 e1 where s: "step (Observing props listening waiting pollers) i = (w1, e1)"
    by (cases "step (Observing props listening waiting pollers) i") auto
  from step_Observing_shape [OF s] obtain l1 ws1 ps1 where
    w1: "w1 = Observing props l1 ws1 ps1" and
    q1: "Subscribe \<notin> set e1" "\<forall>r. Throw (SubscriptionError r) \<notin> set e1"
    by blast
  from Cons.IH [of l1 ws1 ps1] s w1 q1 show ?case
    by (auto simp del: step.simps split: prod.splits)
qed

text \<open>
  Once an unsubscribe call has been acknowledged the subscription calls no handler:
  the subscription observer emits nothing more, and nobody unsubscribes.
\<close>

lemma run_listener_removed:
  "emitted (run_by SubscriptionObserver (Observing props False waiting pollers) ins) = []
   \<and> Unsubscribe \<notin> set (snd (run (Observing props False waiting pollers) ins))"
proof (induction ins arbitrary: waiting pollers)
  case Nil
  then show ?case by simp
next
  case (Cons i ins)
  obtain w1 e1 where s: "step (Observing props False waiting pollers) i = (w1, e1)"
    by (cases "step (Observing props False waiting pollers) i") auto
  from step_Observing_shape [OF s] obtain ws1 ps1 where
    w1: "w1 = Observing props False ws1 ps1" and
    q1: "Unsubscribe \<notin> set e1" "performer i = SubscriptionObserver \<longrightarrow> emitted e1 = []"
    by auto
  from Cons.IH [of ws1 ps1] s w1 q1 show ?case
    by (auto simp: emitted_append simp del: step.simps split: prod.splits)
qed

text \<open>
  With the subscription gone, no handler suspended and no polling observer, the watch
  is over.
\<close>

lemma step_Observing_finished:
  "step (Observing props False [] []) i = (Observing props False [] [], [])"
  by (cases i) (simp_all add: deliver_def)

lemma run_Observing_finished:
  "run (Observing props False [] []) ins = (Observing props False [] [], [])"
  by (induction ins) (simp_all add: step_Observing_finished del: step.simps)

text \<open>
  While there is no polling observer, inputs for polling observers go nowhere.
\<close>

lemma step_no_poller:
  assumes "performer i \<noteq> SubscriptionObserver"
  shows "step (Observing props listening waiting []) i = (Observing props listening waiting [], [])"
  using assms by (cases i) (simp_all add: deliver_def)

lemma run_no_poller:
  assumes "\<forall>i \<in> set ins. performer i \<noteq> SubscriptionObserver"
  shows "run (Observing props listening waiting []) ins = (Observing props listening waiting [], [])"
  using assms by (induction ins) (simp_all add: step_no_poller del: step.simps)

subsection \<open>The numbers of each observer\<close>

text \<open>
  The counter of each polling observer over a step of the watch: only its own input can
  move it, by one, and then the new counter is what it emits. An observer started by a
  fallback enters with the counter 1.
\<close>

lemma counter_of_fresh: "counter_of (pollers @ [(1, running, pending)]) k = counter_of pollers k"
  by (auto simp: counter_of_def nth_append)

lemma step_counter:
  assumes "step w i = (w', effs)"
  shows "if performer i = PollingObserver k
         then (counter_of (pollers_of w') k = counter_of (pollers_of w) k
                 \<and> confirmations effs = [])
              \<or> (counter_of (pollers_of w') k = counter_of (pollers_of w) k + 1
                 \<and> confirmations effs = [counter_of (pollers_of w) k + 1])
         else counter_of (pollers_of w') k = counter_of (pollers_of w) k"
proof (cases w)
  case (Scheduled props)
  with assms show ?thesis
    by (cases i) (auto simp: confirmations_def split: if_splits)
next
  case (Subscribing props)
  with assms show ?thesis
    by (cases i) (auto simp: confirmations_def)
next
  case Rejected
  with assms show ?thesis by (auto simp: step_Rejected confirmations_def)
next
  case Idle
  with assms show ?thesis by (auto simp: step_Idle confirmations_def)
next
  case (Observing props listening waiting pollers)
  show ?thesis
  proof (cases i)
    case (OnData data)
    with assms Observing show ?thesis
      by (cases listening) (auto split: prod.splits)
  next
    case OnError
    with assms Observing show ?thesis by (cases listening) auto
  next
    case (UnsubscribeResolved j)
    with assms Observing show ?thesis
      by (auto simp: watchByPolling_def counter_of_fresh split: if_splits suspended.splits)
  next
    case (UnsubscribeRejected j)
    with assms Observing show ?thesis by (auto split: if_splits)
  next
    case (TickOf j)
    obtain ps es where d: "deliver props pollers j (TickOf j) = (ps, es)"
      by (cases "deliver props pollers j (TickOf j)") auto
    with assms Observing TickOf deliver_counter [OF d] show ?thesis by auto
  next
    case (FetchedOf j nextBlock)
    obtain ps es where d: "deliver props pollers j (FetchedOf j nextBlock) = (ps, es)"
      by (cases "deliver props pollers j (FetchedOf j nextBlock)") auto
    with assms Observing FetchedOf deliver_counter [OF d] show ?thesis by auto
  next
    case (FetchRejectedOf j)
    obtain ps es where d: "deliver props pollers j (FetchRejectedOf j) = (ps, es)"
      by (cases "deliver props pollers j (FetchRejectedOf j)") auto
    with assms Observing FetchRejectedOf deliver_counter [OF d] show ?thesis by auto
  qed (use assms Observing in auto)
qed

text \<open>
  So the numbers one polling observer emits over any run of the watch are strictly
  increasing, and above the counter it had, or will start with.
\<close>

lemma run_by_poller_monotone:
  "sorted_wrt (<) (confirmations (run_by (PollingObserver k) w ins))
   \<and> (\<forall>c \<in> set (confirmations (run_by (PollingObserver k) w ins)).
         counter_of (pollers_of w) k < c)"
proof (induction ins arbitrary: w)
  case Nil
  then show ?case by (simp add: confirmations_Nil)
next
  case (Cons i ins)
  obtain w1 e1 where s: "step w i = (w1, e1)"
    by (cases "step w i") auto
  note IH = Cons.IH [of w1]
  show ?case
  proof (cases "performer i = PollingObserver k")
    case False
    with step_counter [OF s, of k]
    have "counter_of (pollers_of w1) k = counter_of (pollers_of w) k" by simp
    with IH s False show ?thesis
      by (simp del: step.simps)
  next
    case True
    with step_counter [OF s, of k] consider
      (stay) "counter_of (pollers_of w1) k = counter_of (pollers_of w) k"
        "confirmations e1 = []"
      | (moved) "counter_of (pollers_of w1) k = counter_of (pollers_of w) k + 1"
        "confirmations e1 = [counter_of (pollers_of w) k + 1]"
      by auto
    then show ?thesis
    proof cases
      case stay
      with IH s True show ?thesis
        by (simp add: confirmations_append del: step.simps)
    next
      case moved
      with IH s True show ?thesis
        by (fastforce simp: confirmations_append simp del: step.simps)
    qed
  qed
qed

text \<open>
  The numbers the subscription observer emits are those of the non-zero heights
  delivered to it, up to the acknowledgment of an unsubscribe call.
\<close>

lemma run_by_subscription_removed:
  "confirmations (run_by SubscriptionObserver (Observing props False waiting pollers) ins) = []"
  using run_listener_removed [of props waiting pollers ins]
  by (simp add: confirmations_def)

lemma run_by_subscription_confirmations:
  assumes "blockNumber (transactionReceipt props) = Some b"
  shows "\<exists>n. confirmations (run_by SubscriptionObserver (Observing props True waiting pollers) ins)
            = take n (map (\<lambda>h. h - b + 1) (heights ins))"
proof (induction ins arbitrary: waiting pollers)
  case Nil
  then show ?case by (simp add: confirmations_Nil)
next
  case (Cons i ins)
  let ?w = "Observing props True waiting pollers"
  obtain w1 e1 where s: "step ?w i = (w1, e1)"
    by (cases "step ?w i") auto
  from step_Observing_shape [OF s] obtain l1 ws1 ps1 where
    w1: "w1 = Observing props l1 ws1 ps1"
    by blast
  have rest: "\<exists>n. confirmations (run_by SubscriptionObserver w1 ins)
            = take n (map (\<lambda>h. h - b + 1) (heights ins))"
  proof (cases l1)
    case True
    with w1 Cons.IH [of ws1 ps1] show ?thesis by simp
  next
    case False
    with w1 run_by_subscription_removed [of props ws1 ps1 ins] show ?thesis
      by (intro exI [of _ 0]) simp
  qed
  then obtain n where n: "confirmations (run_by SubscriptionObserver w1 ins)
            = take n (map (\<lambda>h. h - b + 1) (heights ins))"
    by blast
  show ?case
  proof (cases "\<exists>d. i = OnData d")
    case False
    then have hs: "heights (i # ins) = heights ins"
      by (cases i) simp_all
    have "performer i = SubscriptionObserver \<longrightarrow> confirmations e1 = []"
      using s False
      by (cases i) (auto simp: confirmations_def watchByPolling_def
          split: if_splits suspended.splits)
    with s n hs show ?thesis
      by (auto simp: confirmations_append confirmations_Nil simp del: step.simps)
  next
    case True
    then obtain d where i: "i = OnData d" by blast
    show ?thesis
    proof (cases "truthy_number (opt_number d)")
      case False
      then have e1: "e1 = []"
        using s i by (simp add: on_data_ignored)
      from False have hs: "heights (OnData d # ins) = heights ins"
        by (auto simp: truthy_number_def split: option.splits)
      from s n hs i e1 show ?thesis
        by (auto simp: confirmations_append confirmations_Nil simp del: step.simps)
    next
      case True
      then obtain hdr h where d: "d = Some hdr" and nh: "number hdr = Some h" and h0: "h \<noteq> 0"
        by (auto simp: truthy_number_def opt_number_def split: option.splits)
      from nh h0 d have hs: "heights (OnData d # ins) = h # heights ins"
        by (simp add: opt_number_def)
      have "confirmations e1 = [h - b + 1]"
        using s i d on_data_header [OF assms nh h0]
        by (auto simp: confirmations_def)
      with s n hs i have "confirmations (run_by SubscriptionObserver ?w (i # ins))
          = take (Suc n) (map (\<lambda>h. h - b + 1) (heights (i # ins)))"
        by (simp add: confirmations_append del: step.simps)
      then show ?thesis by blast
    qed
  qed
qed

lemma sorted_shift:
  fixes b :: int
  assumes "sorted hs"
  shows "sorted (take k (map (\<lambda>h. h - b + 1) hs))"
proof -
  have "sorted (map (\<lambda>h. h - b + 1) hs)"
    using assms by (induction hs) auto
  then show ?thesis by (rule sorted_wrt_take)
qed

subsection \<open>Validation at the entry point\<close>

text \<open>
  On a receipt that is present, the two checks are made in order, and a call that
  passes both starts exactly one observer.
\<close>

lemma validation_of_present_receipt:
  "watchTransactionForConfirmations ctx promiEvent (Some r) txHash fmt =
     (if blockHash r = None
      then Inl (TransactionMissingReceiptOrBlockHashError (Some r) None (Some txHash))
      else if blockNumber r = None \<or> blockNumber r = Some 0
      then Inl (TransactionReceiptMissingBlockNumberError r)
      else if supportsSubscriptions ctx
      then Inr (Scheduled \<lparr>web3Context = ctx, transactionReceipt = r,
                  transactionWeb3PromiEvent = promiEvent, returnFormat = fmt\<rparr>, [SetImmediate])
      else Inr (Polling \<lparr>web3Context = ctx, transactionReceipt = r,
                  transactionWeb3PromiEvent = promiEvent, returnFormat = fmt\<rparr> 1 True 0,
                [SetInterval (pollingInterval ctx)]))"
  by (auto simp: watchTransactionForConfirmations_def watchBySubscription_def watchByPolling_def
      format_bytes32_def truthy_number_def split: option.splits)

subsection \<open>Unfolding the scenarios\<close>

lemmas scenario_defs =
  scenarioReceipt_def scenarioContext_def scenarioProps_def blockAt_def

lemmas code_defs =
  watch_run_def watchTransactionForConfirmations_def watchByPolling_def watchBySubscription_def
  interval_callback_begin_def interval_callback_resume_def on_data_def pollingInterval_def
  truthy_number_def truthy_string_def opt_hash_def opt_number_def format_uint_def
  format_bytes32_def deliver_def without_def

section \<open>The claims\<close>

text \<open>
  Claim C1. For every threshold \<open>T \<ge> 1\<close> and receipt block \<open>B\<close>, with the blocks
  \<open>B+1 .. B+T-1\<close> becoming available in order, the polling observer should emit exactly
  the numbers \<open>2 .. T\<close> and, once the counter has reached the threshold, stop for good:
  no later tick fetches or emits.

  The code does not do this. The tick that finds the counter at the threshold clears the
  interval and then goes on: it fetches block \<open>B+T\<close>, and emits \<open>T+1\<close> when that block is
  there. With \<open>B = 100\<close> and \<open>T = 3\<close>, each fetch answered before the next tick: when
  block 103 exists at the third tick the events are 2, 3 and 4; when it does not, the
  third tick still fetches height 103 after the counter has reached 3. The fourth tick
  never fires.
\<close>

theorem C1_threshold_tick_still_fetches_and_emits:
  "watch_run (scenarioContext 3 False) 7 (Some scenarioReceipt) ''0xtx'' FMT_HEX
     [Tick, Fetched (Some (blockAt 101)), Tick, Fetched (Some (blockAt 102)),
      Tick, Fetched (Some (blockAt 103)), Tick]
   = Inr (Polling (scenarioProps 3 False) 4 False 0,
       [SetInterval 1000,
        GetBlockByNumber 101,
        Emit 7 \<lparr>confirmationNumber = 2, receipt = scenarioReceipt, latestBlockHash = Some ''H1''\<rparr>,
        GetBlockByNumber 102,
        Emit 7 \<lparr>confirmationNumber = 3, receipt = scenarioReceipt, latestBlockHash = Some ''H2''\<rparr>,
        ClearInterval,
        GetBlockByNumber 103,
        Emit 7 \<lparr>confirmationNumber = 4, receipt = scenarioReceipt, latestBlockHash = Some ''H''\<rparr>])
   \<and> watch_run (scenarioContext 3 False) 7 (Some scenarioReceipt) ''0xtx'' FMT_HEX
     [Tick, Fetched (Some (blockAt 101)), Tick, Fetched (Some (blockAt 102)),
      Tick, Fetched None, Tick]
   = Inr (Polling (scenarioProps 3 False) 3 False 0,
       [SetInterval 1000,
        GetBlockByNumber 101,
        Emit 7 \<lparr>confirmationNumber = 2, receipt = scenarioReceipt, latestBlockHash = Some ''H1''\<rparr>,
        GetBlockByNumber 102,
        Emit 7 \<lparr>confirmationNumber = 3, receipt = scenarioReceipt, latestBlockHash = Some ''H2''\<rparr>,
        ClearInterval,
        GetBlockByNumber 103])"
  by (simp add: scenario_defs code_defs)




text \<open>
  Claim C3. An absent receipt or an absent block hash should give
  \<^verbatim>\<open>TransactionMissingReceiptOrBlockHashError\<close>, an absent or zero block number
  \<^verbatim>\<open>TransactionReceiptMissingBlockNumberError\<close>, both before any observer is started.

  On an absent receipt the code does not get as far as throwing the first error: the
  payload of that error reads \<^verbatim>\<open>transactionReceipt.blockHash\<close>, and reading a property
  of \<^verbatim>\<open>undefined\<close> throws a TypeError. (For a receipt that is present the claim holds:
  \<open>validation_of_present_receipt\<close>.)
\<close>

theorem C3_absent_receipt_throws_TypeError:
  "watchTransactionForConfirmations ctx promiEvent None txHash fmt = Inl TypeError"
  by (simp add: watchTransactionForConfirmations_def)

text \<open>
  Claim C4. In a run of the subscription observer in which a delivered header reaches
  the threshold, \<^verbatim>\<open>unsubscribe\<close> should be called exactly once and nothing be emitted
  by the subscription observer after that call, whatever is delivered later.

  As stated this fails while the call is outstanding. The data handler keeps no state
  and checks no flag, and the subscription goes on calling it until the unsubscribe call
  is acknowledged: with the receipt in block 100 and threshold 10, the headers 109 and
  110 both arrive before the acknowledgment, so 11 is emitted after the first call and
  \<^verbatim>\<open>unsubscribe\<close> is called a second time.
\<close>

theorem C4_header_before_acknowledgment:
  "run (Subscribed (scenarioProps 10 True))
     [OnData (Some (blockAt 105)), OnData (Some (blockAt 109)), OnData (Some (blockAt 110)),
      UnsubscribeResolved 0]
   = (Observing (scenarioProps 10 True) False [DataHandler] [],
      [Emit 7 \<lparr>confirmationNumber = 6, receipt = scenarioReceipt, latestBlockHash = Some ''P''\<rparr>,
       Emit 7 \<lparr>confirmationNumber = 10, receipt = scenarioReceipt, latestBlockHash = Some ''P''\<rparr>,
       Unsubscribe,
       Emit 7 \<lparr>confirmationNumber = 11, receipt = scenarioReceipt, latestBlockHash = Some ''P''\<rparr>,
       Unsubscribe])"
  by (simp add: scenario_defs code_defs)

text \<open>
  Claim C4, amended. Every delivered header that reaches the threshold makes the data
  handler emit its event and call \<^verbatim>\<open>unsubscribe\<close>. An acknowledged unsubscribe call
  ends the subscription: from then on the subscription observer emits no event and
  \<^verbatim>\<open>unsubscribe\<close> is not called again, whatever headers, errors, ticks or answers are
  delivered. When nothing is delivered on the subscription between the call and its
  acknowledgment (and nobody unsubscribed before), \<^verbatim>\<open>unsubscribe\<close> is called exactly
  once in the run and nothing at all follows it.
\<close>

theorem C4_unsubscribe_until_acknowledged:
  assumes "blockNumber (transactionReceipt props) = Some b"
    and "number hdr = Some h" and "h \<noteq> 0"
    and "transactionConfirmationBlocks (web3Context props) \<le> h - b + 1"
  shows "step (Observing props True waiting pollers) (OnData (Some hdr)) =
           (Observing props True (waiting @ [DataHandler]) pollers,
            [Emit (transactionWeb3PromiEvent props)
               \<lparr>confirmationNumber = h - b + 1, receipt = transactionReceipt props,
                latestBlockHash = parentHash hdr\<rparr>,
             Unsubscribe])
       \<and> (k < length waiting \<longrightarrow>
            (\<exists>waiting' pollers'.
               fst (step (Observing props listening waiting pollers) (UnsubscribeResolved k))
                 = Observing props False waiting' pollers'))
       \<and> emitted (run_by SubscriptionObserver (Observing props False waiting pollers) ins) = []
       \<and> Unsubscribe \<notin> set (snd (run (Observing props False waiting pollers) ins))
       \<and> (fst (run (Subscribed props) pre) = Subscribed props
            \<and> Unsubscribe \<notin> set (snd (run (Subscribed props) pre))
            \<and> (\<forall>i \<in> set mid. performer i \<noteq> SubscriptionObserver) \<longrightarrow>
          run (Subscribed props) (pre @ OnData (Some hdr) # mid @ UnsubscribeResolved 0 # post) =
            (Observing props False [] [],
             snd (run (Subscribed props) pre) @
             [Emit (transactionWeb3PromiEvent props)
                \<lparr>confirmationNumber = h - b + 1, receipt = transactionReceipt props,
                 latestBlockHash = parentHash hdr\<rparr>,
              Unsubscribe])
          \<and> count_list
               (snd (run (Subscribed props)
                  (pre @ OnData (Some hdr) # mid @ UnsubscribeResolved 0 # post)))
               Unsubscribe = 1)"
proof (intro conjI impI)
  let ?ev = "Emit (transactionWeb3PromiEvent props)
               \<lparr>confirmationNumber = h - b + 1, receipt = transactionReceipt props,
                latestBlockHash = parentHash hdr\<rparr>"
  have od: "on_data props (Some hdr) = (True, [?ev, Unsubscribe])"
    using on_data_header [OF assms(1,2,3)] assms(4) by simp
  then show st: "step (Observing props True waiting pollers) (OnData (Some hdr)) =
           (Observing props True (waiting @ [DataHandler]) pollers, [?ev, Unsubscribe])"
    by simp
  show "emitted (run_by SubscriptionObserver (Observing props False waiting pollers) ins) = []"
    and "Unsubscribe \<notin> set (snd (run (Observing props False waiting pollers) ins))"
    using run_listener_removed [of props waiting pollers ins] by simp_all
  {
    assume "k < length waiting"
    then show "\<exists>waiting' pollers'.
               fst (step (Observing props listening waiting pollers) (UnsubscribeResolved k))
                 = Observing props False waiting' pollers'"
      by (auto simp: watchByPolling_def split: suspended.splits)
  }
  {
    assume a: "fst (run (Subscribed props) pre) = Subscribed props
            \<and> Unsubscribe \<notin> set (snd (run (Subscribed props) pre))
            \<and> (\<forall>i \<in> set mid. performer i \<noteq> SubscriptionObserver)"
    then obtain e0 where pre: "run (Subscribed props) pre = (Subscribed props, e0)"
      and quiet: "Unsubscribe \<notin> set e0"
      by (cases "run (Subscribed props) pre") auto
    have hd: "step (Subscribed props) (OnData (Some hdr)) =
           (Observing props True [DataHandler] [], [?ev, Unsubscribe])"
      using od by simp
    have md: "run (Observing props True [DataHandler] []) mid
        = (Observing props True [DataHandler] [], [])"
      using a by (simp add: run_no_poller)
    have ack: "step (Observing props True [DataHandler] []) (UnsubscribeResolved 0)
        = (Observing props False [] [], [])"
      by (simp add: without_def)
    have tail: "run (Observing props True [DataHandler] []) (mid @ UnsubscribeResolved 0 # post)
        = (Observing props False [] [], [])"
      by (simp add: run_append md ack run_Observing_finished del: step.simps)
    have after: "run (Subscribed props) (OnData (Some hdr) # mid @ UnsubscribeResolved 0 # post)
        = (Observing props False [] [], [?ev, Unsubscribe])"
      by (simp add: hd tail del: step.simps)
    have "run (Subscribed props)
          (pre @ (OnData (Some hdr) # mid @ UnsubscribeResolved 0 # post)) =
        (case run (Subscribed props) pre of
           (w', effs) \<Rightarrow>
             (case run w' (OnData (Some hdr) # mid @ UnsubscribeResolved 0 # post) of
                (w'', effs') \<Rightarrow> (w'', effs @ effs')))"
      by (rule run_append)
    then show whole: "run (Subscribed props)
          (pre @ OnData (Some hdr) # mid @ UnsubscribeResolved 0 # post) =
            (Observing props False [] [], snd (run (Subscribed props) pre) @ [?ev, Unsubscribe])"
      by (simp add: pre after del: run.simps step.simps)
    have "count_list (e0 @ [?ev, Unsubscribe]) Unsubscribe = 1"
      using quiet by (simp add: count_list_0_iff)
    with whole pre show "count_list
               (snd (run (Subscribed props)
                  (pre @ OnData (Some hdr) # mid @ UnsubscribeResolved 0 # post)))
               Unsubscribe = 1"
      by simp
  }
qed

text \<open>
  Header 105, then 109 reaches the threshold; a tick, the acknowledgment, and whatever
  comes later changes nothing.
\<close>

theorem C4_unsubscribe_until_acknowledged_witness:
  "run (Subscribed (scenarioProps 10 True))
     ([OnData (Some (blockAt 105))] @ OnData (Some (blockAt 109))
        # [Tick] @ UnsubscribeResolved 0
        # [OnData (Some (blockAt 110)), OnError, Tick, UnsubscribeResolved 0])
   = (Observing (scenarioProps 10 True) False [] [],
      [Emit 7 \<lparr>confirmationNumber = 6, receipt = scenarioReceipt, latestBlockHash = Some ''P''\<rparr>,
       Emit 7 \<lparr>confirmationNumber = 10, receipt = scenarioReceipt, latestBlockHash = Some ''P''\<rparr>,
       Unsubscribe])
   \<and> (\<exists>waiting' pollers'.
         fst (step (Observing (scenarioProps 10 True) True [DataHandler] [])
                (UnsubscribeResolved 0))
           = Observing (scenarioProps 10 True) False waiting' pollers')"
proof -
  have h1: "blockNumber (transactionReceipt (scenarioProps 10 True)) = Some 100"
    by (simp add: scenario_defs)
  have h2: "number (blockAt 109) = Some 109" by (simp add: scenario_defs)
  have h3: "(109::int) \<noteq> 0" by simp
  have h4: "transactionConfirmationBlocks (web3Context (scenarioProps 10 True)) \<le> 109 - 100 + 1"
    by (simp add: scenario_defs)
  have p: "run (Subscribed (scenarioProps 10 True)) [OnData (Some (blockAt 105))]
     = (Subscribed (scenarioProps 10 True),
        [Emit 7 \<lparr>confirmationNumber = 6, receipt = scenarioReceipt, latestBlockHash = Some ''P''\<rparr>])"
    by (simp add: scenario_defs code_defs)
  have m: "\<forall>i \<in> set [Tick]. performer i \<noteq> SubscriptionObserver" by simp
  have k: "(0::nat) < length [DataHandler]" by simp
  from C4_unsubscribe_until_acknowledged [OF h1 h2 h3 h4,
      of "[DataHandler]" "[]" 0 True "[]" "[OnData (Some (blockAt 105))]" "[Tick]"
         "[OnData (Some (blockAt 110)), OnError, Tick, UnsubscribeResolved 0]"] p m k
  show ?thesis by (simp add: scenario_defs)
qed

text \<open>
  Claim C5. On every subscription error the observer should first unsubscribe and then
  restart the watch by polling, with the same receipt, emitter and context and the
  counter at 1 again, one way, with no failure coming out of it.

  As stated this fails when the unsubscribe call is rejected: the error handler is
  suspended at \<^verbatim>\<open>await subscription.unsubscribe()\<close>, the rejection ends it there, and
  \<^verbatim>\<open>watchByPolling\<close> is never called. No later tick does anything; the rejection is left
  unhandled.
\<close>

theorem C5_rejected_unsubscribe_no_polling:
  "run (Subscribed (scenarioProps 10 True))
     [OnError, UnsubscribeRejected 0, Tick, Fetched (Some (blockAt 101))]
   = (Subscribed (scenarioProps 10 True), [Unsubscribe, Throw RpcError])"
  by (simp add: scenario_defs code_defs)

text \<open>
  Claim C5, amended. On every subscription error the error handler first calls
  \<^verbatim>\<open>unsubscribe\<close>; once that call has resolved it calls \<^verbatim>\<open>watchByPolling\<close> with the
  same props (receipt, emitter, context), which starts a polling observer whose counter
  is 1. With nothing else outstanding the watch is from then on that polling observer
  alone. The transition is one way: a watch that is observing never subscribes again.
  Neither step of the fallback raises anything, and no \<^verbatim>\<open>SubscriptionError\<close> is raised
  later (with a block number on the receipt and no failed fetch, the polling observer
  raises no error at all).
\<close>

theorem C5_error_falls_back_once_unsubscribed:
  "step (Observing props True waiting pollers) OnError
     = (Observing props True (waiting @ [ErrorHandler]) pollers, [Unsubscribe])
   \<and> (k < length waiting \<and> waiting ! k = ErrorHandler \<longrightarrow>
        step (Observing props listening waiting pollers) (UnsubscribeResolved k)
          = (Observing props False (without k waiting)
               (pollers @ pollers_of (fst (watchByPolling props))),
             snd (watchByPolling props)))
   \<and> watchByPolling props
     = (Polling props 1 True 0, [SetInterval (pollingInterval (web3Context props))])
   \<and> pollers_of (fst (watchByPolling props)) = [(1, True, 0)]
   \<and> run (Subscribed props) (OnError # UnsubscribeResolved 0 # ins) =
       (fst (run (Polling props 1 True 0) ins),
        Unsubscribe # SetInterval (pollingInterval (web3Context props))
          # snd (run (Polling props 1 True 0) ins))
   \<and> (\<exists>cn running pending.
         fst (run (Polling props 1 True 0) ins) = Polling props cn running pending)
   \<and> Subscribe \<notin> set (snd (run (Polling props 1 True 0) ins))
   \<and> Unsubscribe \<notin> set (snd (run (Polling props 1 True 0) ins))
   \<and> (\<forall>r. Throw (SubscriptionError r) \<notin> set (snd (run (Polling props 1 True 0) ins)))
   \<and> (blockNumber (transactionReceipt props) \<noteq> None \<and> FetchRejected \<notin> set ins \<longrightarrow>
        (\<forall>e. Throw e \<notin> set (snd (run (Polling props 1 True 0) ins))))
   \<and> Subscribe \<notin> set (snd (run (Observing props listening waiting pollers) ins))
   \<and> (\<forall>r. Throw (SubscriptionError r)
         \<notin> set (snd (run (Observing props listening waiting pollers) ins)))"
proof -
  obtain w effs where r: "run (Polling props 1 True 0) ins = (w, effs)"
    by (cases "run (Polling props 1 True 0) ins") auto
  have a: "step (Observing props True waiting pollers) OnError
     = (Observing props True (waiting @ [ErrorHandler]) pollers, [Unsubscribe])"
    by simp
  have b: "k < length waiting \<and> waiting ! k = ErrorHandler \<longrightarrow>
        step (Observing props listening waiting pollers) (UnsubscribeResolved k)
          = (Observing props False (without k waiting)
               (pollers @ pollers_of (fst (watchByPolling props))),
             snd (watchByPolling props))"
    by (simp add: watchByPolling_def)
  have c: "watchByPolling props
      = (Polling props 1 True 0, [SetInterval (pollingInterval (web3Context props))])"
    by (simp add: watchByPolling_def)
  have d: "run (Subscribed props) (OnError # UnsubscribeResolved 0 # ins) =
       (w, Unsubscribe # SetInterval (pollingInterval (web3Context props)) # effs)"
    using r by (simp add: watchByPolling_def without_def)
  from run_Polling_state [of props 1 True 0 ins] r
  have e: "\<exists>cn running pending. w = Polling props cn running pending" by simp
  from run_Polling_quiet [OF r]
  have f: "Subscribe \<notin> set effs" "Unsubscribe \<notin> set effs"
    "\<forall>r. Throw (SubscriptionError r) \<notin> set effs"
    "blockNumber (transactionReceipt props) \<noteq> None \<and> FetchRejected \<notin> set ins
       \<longrightarrow> (\<forall>e. Throw e \<notin> set effs)"
    by blast+
  from run_Observing_one_way [of props listening waiting pollers ins]
  have g: "Subscribe \<notin> set (snd (run (Observing props listening waiting pollers) ins))"
    "\<forall>r. Throw (SubscriptionError r)
         \<notin> set (snd (run (Observing props listening waiting pollers) ins))"
    by blast+
  have c': "pollers_of (fst (watchByPolling props)) = [(1, True, 0)]"
    by (simp add: watchByPolling_def)
  from a b c c' d e f g r show ?thesis
    by (simp del: step.simps)
qed

text \<open>
  The spec's scenario C, and a fallback while a data handler is still suspended.
\<close>

theorem C5_error_falls_back_once_unsubscribed_witness:
  "run (Subscribed (scenarioProps 10 True))
      (OnError # UnsubscribeResolved 0
         # [Tick, Fetched (Some (blockAt 101)), OnError, OnData (Some (blockAt 105))])
     = (Polling (scenarioProps 10 True) 2 True 0,
        [Unsubscribe, SetInterval 1000, GetBlockByNumber 101,
         Emit 7 \<lparr>confirmationNumber = 2, receipt = scenarioReceipt,
                  latestBlockHash = Some ''H1''\<rparr>])
   \<and> step (Observing (scenarioProps 10 True) True [DataHandler, ErrorHandler] [])
        (UnsubscribeResolved 1)
     = (Observing (scenarioProps 10 True) False [DataHandler] [(1, True, 0)],
        [SetInterval 1000])
   \<and> (\<forall>e. Throw e \<notin> set (snd (run (Polling (scenarioProps 10 True) 1 True 0)
         [Tick, Fetched (Some (blockAt 101)), OnError, OnData (Some (blockAt 105))])))"
proof -
  have h: "blockNumber (transactionReceipt (scenarioProps 10 True)) \<noteq> None
      \<and> FetchRejected \<notin> set [Tick, Fetched (Some (blockAt 101)), OnError, OnData (Some (blockAt 105))]"
    by (simp add: scenario_defs)
  have v: "run (Polling (scenarioProps 10 True) 1 True 0)
        [Tick, Fetched (Some (blockAt 101)), OnError, OnData (Some (blockAt 105))]
     = (Polling (scenarioProps 10 True) 2 True 0,
        [GetBlockByNumber 101,
         Emit 7 \<lparr>confirmationNumber = 2, receipt = scenarioReceipt,
                  latestBlockHash = Some ''H1''\<rparr>])"
    by (simp add: scenario_defs code_defs)
  have i: "pollingInterval (web3Context (scenarioProps 10 True)) = 1000"
    by (simp add: scenario_defs pollingInterval_def)
  have k: "(1::nat) < length [DataHandler, ErrorHandler]
      \<and> [DataHandler, ErrorHandler] ! 1 = ErrorHandler"
    by simp
  have wo: "without 1 [DataHandler, ErrorHandler] = [DataHandler]"
    by (simp add: without_def)
  from C5_error_falls_back_once_unsubscribed [of "scenarioProps 10 True"
      "[DataHandler, ErrorHandler]" "[]" 1 True
      "[Tick, Fetched (Some (blockAt 101)), OnError, OnData (Some (blockAt 105))]"] h v i k wo
  show ?thesis by (simp del: step.simps)
qed

text \<open>
  Claim C6. The numbers emitted by one watch should start at 1 and never decrease,
  over any sequence of ticks, headers and the fallback.

  As stated this fails in two ways. At the fallback: the subscription has emitted 6 for
  header 105, fails, and the polling observer that is started counts from 1 again and
  emits 2; the restart is what the fallback is written to do. And on the subscription
  alone: header 103 after header 105 gives 4 after 6, because the data handler does not
  compare the height of a header with anything (the missing check that lets a header
  below the receipt's block through, see C7).
\<close>

theorem C6_numbers_step_down:
  "confirmations (snd (run (Subscribed (scenarioProps 10 True))
      [OnData (Some (blockAt 105)), OnError, UnsubscribeResolved 0,
       Tick, Fetched (Some (blockAt 101))])) = [6, 2]
   \<and> confirmations (snd (run (Subscribed (scenarioProps 10 True))
      [OnData (Some (blockAt 105)), OnData (Some (blockAt 103))])) = [6, 4]"
  by (simp add: scenario_defs code_defs confirmations_def)

text \<open>
  Claim C6, amended. Within each observer of a watch the numbers do not decrease.
  Every polling observer, the one a polling watch starts with and each one started by a
  fallback, counts from 1 and emits strictly increasing numbers, the first at least 2.
  The subscription observer's numbers are non-decreasing when the non-zero heights
  delivered to it are; nothing is said about heights that decrease. At a fallback the
  polling observer that is started counts from 1 again, so the numbers of the watch as
  a whole may step down there: after one error whose unsubscribe call is acknowledged
  at once, they are those of the subscription followed by those of a fresh polling
  observer.
\<close>

theorem C6_monotone_within_each_observer:
  assumes "blockNumber (transactionReceipt props) = Some b"
  shows "sorted_wrt (<) (confirmations (snd (run (fst (watchByPolling props)) ins)))
       \<and> (\<forall>c \<in> set (confirmations (snd (run (fst (watchByPolling props)) ins))). 2 \<le> c)
       \<and> sorted_wrt (<) (confirmations (run_by (PollingObserver k) (Subscribed props) ins))
       \<and> (\<forall>c \<in> set (confirmations (run_by (PollingObserver k) (Subscribed props) ins)). 2 \<le> c)
       \<and> (sorted (heights ins) \<longrightarrow>
            sorted (confirmations (run_by SubscriptionObserver (Subscribed props) ins)))
       \<and> (fst (run (Subscribed props) pre) = Subscribed props \<longrightarrow>
            confirmations (snd (run (Subscribed props)
                                   (pre @ OnError # UnsubscribeResolved 0 # ins)))
              = confirmations (snd (run (Subscribed props) pre))
                @ confirmations (snd (run (fst (watchByPolling props)) ins)))"
proof (intro conjI impI)
  obtain w effs where r: "run (Polling props 1 True 0) ins = (w, effs)"
    by (cases "run (Polling props 1 True 0) ins") auto
  from run_Polling_monotone [OF r]
  have "sorted_wrt (<) (confirmations effs)" and "\<forall>c \<in> set (confirmations effs). 2 \<le> c"
    by auto
  with r show "sorted_wrt (<) (confirmations (snd (run (fst (watchByPolling props)) ins)))"
    and "\<forall>c \<in> set (confirmations (snd (run (fst (watchByPolling props)) ins))). 2 \<le> c"
    by (simp_all add: watchByPolling_def)
next
  from run_by_poller_monotone [of k "Subscribed props" ins]
  show "sorted_wrt (<) (confirmations (run_by (PollingObserver k) (Subscribed props) ins))"
    and "\<forall>c \<in> set (confirmations (run_by (PollingObserver k) (Subscribed props) ins)). 2 \<le> c"
    by (auto simp: counter_of_def)
next
  assume a: "sorted (heights ins)"
  obtain n where "confirmations (run_by SubscriptionObserver (Subscribed props) ins)
      = take n (map (\<lambda>h. h - b + 1) (heights ins))"
    using run_by_subscription_confirmations [OF assms, of "[]" "[]" ins] by blast
  with a sorted_shift show "sorted (confirmations (run_by SubscriptionObserver (Subscribed props) ins))"
    by simp
next
  assume a: "fst (run (Subscribed props) pre) = Subscribed props"
  then obtain e0 where pre: "run (Subscribed props) pre = (Subscribed props, e0)"
    by (cases "run (Subscribed props) pre") auto
  have fb: "run (Subscribed props) (OnError # UnsubscribeResolved 0 # ins) =
       (fst (run (Polling props 1 True 0) ins),
        Unsubscribe # SetInterval (pollingInterval (web3Context props))
          # snd (run (Polling props 1 True 0) ins))"
    by (simp add: watchByPolling_def without_def split: prod.splits)
  show "confirmations (snd (run (Subscribed props) (pre @ OnError # UnsubscribeResolved 0 # ins)))
      = confirmations (snd (run (Subscribed props) pre))
        @ confirmations (snd (run (fst (watchByPolling props)) ins))"
    by (simp add: run_append pre fb watchByPolling_def confirmations_def emitted_append
        del: run.simps step.simps)
qed

theorem C6_monotone_within_each_observer_witness:
  "confirmations (snd (run (fst (watchByPolling (scenarioProps 3 True)))
       [Tick, Fetched (Some (blockAt 101)), Tick, Fetched (Some (blockAt 102))])) = [2, 3]
   \<and> confirmations (run_by SubscriptionObserver (Subscribed (scenarioProps 3 True))
       [OnData (Some (blockAt 101)), OnData (Some (blockAt 101))]) = [2, 2]
   \<and> sorted (confirmations (run_by SubscriptionObserver (Subscribed (scenarioProps 3 True))
       [OnData (Some (blockAt 101)), OnData (Some (blockAt 101))]))
   \<and> confirmations (snd (run (Subscribed (scenarioProps 3 True))
       ([OnData (Some (blockAt 101))] @ OnError # UnsubscribeResolved 0
          # [Tick, Fetched (Some (blockAt 101)), Tick, Fetched (Some (blockAt 102))])))
     = [2, 2, 3]"
proof -
  have h: "blockNumber (transactionReceipt (scenarioProps 3 True)) = Some 100"
    by (simp add: scenario_defs)
  have p: "confirmations (snd (run (fst (watchByPolling (scenarioProps 3 True)))
       [Tick, Fetched (Some (blockAt 101)), Tick, Fetched (Some (blockAt 102))])) = [2, 3]"
    by (simp add: scenario_defs code_defs confirmations_def)
  have s: "sorted (heights [OnData (Some (blockAt 101)), OnData (Some (blockAt 101))])"
    by (simp add: scenario_defs opt_number_def)
  have s2: "confirmations (run_by SubscriptionObserver (Subscribed (scenarioProps 3 True))
       [OnData (Some (blockAt 101)), OnData (Some (blockAt 101))]) = [2, 2]"
    by (simp add: scenario_defs code_defs confirmations_def)
  have f: "fst (run (Subscribed (scenarioProps 3 True)) [OnData (Some (blockAt 101))])
      = Subscribed (scenarioProps 3 True)"
    by (simp add: scenario_defs code_defs)
  have f2: "confirmations (snd (run (Subscribed (scenarioProps 3 True)) [OnData (Some (blockAt 101))]))
      = [2]"
    by (simp add: scenario_defs code_defs confirmations_def)
  from C6_monotone_within_each_observer [OF h,
      of "[OnData (Some (blockAt 101)), OnData (Some (blockAt 101))]" 0 "[]"] s
  have a: "sorted (confirmations (run_by SubscriptionObserver (Subscribed (scenarioProps 3 True))
       [OnData (Some (blockAt 101)), OnData (Some (blockAt 101))]))"
    by blast
  from C6_monotone_within_each_observer [OF h,
      of "[Tick, Fetched (Some (blockAt 101)), Tick, Fetched (Some (blockAt 102))]" 0
         "[OnData (Some (blockAt 101))]"] f
  have b: "confirmations (snd (run (Subscribed (scenarioProps 3 True))
       ([OnData (Some (blockAt 101))] @ OnError # UnsubscribeResolved 0
          # [Tick, Fetched (Some (blockAt 101)), Tick, Fetched (Some (blockAt 102))])))
     = confirmations (snd (run (Subscribed (scenarioProps 3 True)) [OnData (Some (blockAt 101))]))
       @ confirmations (snd (run (fst (watchByPolling (scenarioProps 3 True)))
           [Tick, Fetched (Some (blockAt 101)), Tick, Fetched (Some (blockAt 102))]))"
    by blast
  from p s2 a b f2 show ?thesis by simp
qed

text \<open>
  Claim C7. Every emitted event should carry a number that is at least 1; no header
  should be able to make the subscription observer emit a number \<open>\<le> 0\<close>.

  The data handler has no check of the header's height against the receipt's block: with
  the receipt in block 100, a header of height 50 makes it emit \<open>50 - 100 + 1 = -49\<close>,
  which it passes to \<^verbatim>\<open>format\<close> as an \<^verbatim>\<open>uint\<close>. (The polling observer emits numbers
  from 2 upwards only: \<open>run_Polling_monotone\<close>.)
\<close>

theorem C7_stale_header_emits_negative_number:
  "watch_run (scenarioContext 10 True) 7 (Some scenarioReceipt) ''0xtx'' FMT_HEX
     [Immediate, SubscribeResolved, OnData (Some (blockAt 50))]
   = Inr (Subscribed (scenarioProps 10 True),
       [SetImmediate, Subscribe,
        Emit 7 \<lparr>confirmationNumber = - 49, receipt = scenarioReceipt, latestBlockHash = Some ''P''\<rparr>])"
  by (simp add: scenario_defs code_defs)

text \<open>
  Claim C8. When the subscribe request itself is rejected, the watch ends with a
  \<^verbatim>\<open>SubscriptionError\<close>: no polling observer is started and no event is ever emitted,
  whatever is delivered afterwards (\<open>ins\<close>). This holds for the whole watch from the
  call on, and for any watch whose subscribe request is outstanding.
\<close>

theorem C8_rejected_subscribe_is_fatal:
  assumes "blockHash r \<noteq> None" and "truthy_number (blockNumber r)"
    and "supportsSubscriptions ctx" and "subscriptionManager ctx"
  shows "watch_run ctx promiEvent (Some r) txHash fmt (Immediate # SubscribeRejected # ins)
           = Inr (Rejected, [SetImmediate, Subscribe, Throw (SubscriptionError r)])
       \<and> run (Subscribing props) (SubscribeRejected # ins)
           = (Rejected, [Throw (SubscriptionError (transactionReceipt props))])"
  using assms
  by (simp add: watch_run_def watchTransactionForConfirmations_def watchBySubscription_def
      run_Rejected)

theorem C8_rejected_subscribe_is_fatal_witness:
  "watch_run (scenarioContext 10 True) 7 (Some scenarioReceipt) ''0xtx'' FMT_HEX
     (Immediate # SubscribeRejected
        # [OnData (Some (blockAt 105)), OnError, Tick, Fetched (Some (blockAt 101))])
     = Inr (Rejected, [SetImmediate, Subscribe, Throw (SubscriptionError scenarioReceipt)])"
proof -
  have h1: "blockHash scenarioReceipt \<noteq> None" by (simp add: scenario_defs)
  have h2: "truthy_number (blockNumber scenarioReceipt)"
    by (simp add: scenario_defs truthy_number_def)
  have h3: "supportsSubscriptions (scenarioContext 10 True)" by (simp add: scenario_defs)
  have h4: "subscriptionManager (scenarioContext 10 True)" by (simp add: scenario_defs)
  from C8_rejected_subscribe_is_fatal [OF h1 h2 h3 h4] show ?thesis by simp
qed

text \<open>
  Claim C9. A firing of the polling callback fetches exactly one block, at height
  \<open>receipt.blockNumber + counter\<close>; when the answer arrives the callback moves the counter
  by at most one and emits at most one event, whatever the block source holds. So over
  any run of a polling observer, the events, the fetches and the advance of the counter
  are each bounded by the number of times the interval fired.
\<close>

theorem C9_one_fetch_one_step_per_tick:
  assumes "blockNumber (transactionReceipt props) = Some b"
  shows "step (Polling props cn True pending) Tick =
           (Polling props cn (cn < transactionConfirmationBlocks (web3Context props)) (Suc pending),
            (if transactionConfirmationBlocks (web3Context props) \<le> cn then [ClearInterval] else [])
            @ [GetBlockByNumber (b + cn)])
       \<and> fetches (snd (step (Polling props cn True pending) Tick)) = [b + cn]
       \<and> (\<exists>cn'. fst (step (Polling props cn running (Suc pending)) (Fetched nextBlock))
                  = Polling props cn' running pending
              \<and> cn \<le> cn' \<and> cn' \<le> cn + 1)
       \<and> length (emitted (snd (step (Polling props cn running (Suc pending)) (Fetched nextBlock)))) \<le> 1
       \<and> fetches (snd (step (Polling props cn running (Suc pending)) (Fetched nextBlock))) = []
       \<and> (\<exists>cn' running' pending'.
             fst (run (fst (watchByPolling props)) ins) = Polling props cn' running' pending'
           \<and> cn' \<le> 1 + int (count_list ins Tick))
       \<and> length (emitted (snd (run (fst (watchByPolling props)) ins))) \<le> count_list ins Tick
       \<and> length (fetches (snd (run (fst (watchByPolling props)) ins))) \<le> count_list ins Tick"
proof -
  have tick: "step (Polling props cn True pending) Tick =
           (Polling props cn (cn < transactionConfirmationBlocks (web3Context props)) (Suc pending),
            (if transactionConfirmationBlocks (web3Context props) \<le> cn then [ClearInterval] else [])
            @ [GetBlockByNumber (b + cn)])"
    by (simp add: deliver_single interval_callback_begin_fetch [OF assms])
  then have fet: "fetches (snd (step (Polling props cn True pending) Tick)) = [b + cn]"
    by (simp add: fetches_append)
  obtain cn' es where cb: "interval_callback_resume props nextBlock cn = (cn', es)"
    by (cases "interval_callback_resume props nextBlock cn") auto
  then have res: "step (Polling props cn running (Suc pending)) (Fetched nextBlock)
      = (Polling props cn' running pending, es)"
    by (simp add: deliver_single)
  from interval_callback_resume_result [OF cb]
  have r1: "cn \<le> cn' \<and> cn' \<le> cn + 1" and r2: "length (emitted es) \<le> 1" and r3: "fetches es = []"
    by (auto simp: confirmations_def)
  obtain w effs where r: "run (Polling props 1 True 0) ins = (w, effs)"
    by (cases "run (Polling props 1 True 0) ins") auto
  from run_Polling_monotone [OF r] obtain cn2 r2' p2 where
    w: "w = Polling props cn2 r2' p2" and
    c: "cn2 = 1 + int (length (confirmations effs))" and
    n: "length (confirmations effs) + p2 \<le> 0 + count_list ins Tick" and
    f: "length (fetches effs) \<le> count_list ins Tick"
    by blast
  from n have n': "length (emitted effs) \<le> count_list ins Tick"
    by (simp add: confirmations_def)
  with c have c': "cn2 \<le> 1 + int (count_list ins Tick)"
    by (simp add: confirmations_def)
  from tick fet res r1 r2 r3 r w c' n' f show ?thesis
    by (simp add: watchByPolling_def)
qed

text \<open>
  Blocks 101 and 102 are both there; one tick fetches 101 only and emits 2 only.
\<close>

theorem C9_one_fetch_one_step_per_tick_witness:
  "blockNumber (transactionReceipt (scenarioProps 24 False)) = Some 100
   \<and> step (Polling (scenarioProps 24 False) 1 True 0) Tick
       = (Polling (scenarioProps 24 False) 1 True 1, [GetBlockByNumber 101])
   \<and> step (Polling (scenarioProps 24 False) 1 True 1) (Fetched (Some (blockAt 101)))
       = (Polling (scenarioProps 24 False) 2 True 0,
          [Emit 7 \<lparr>confirmationNumber = 2, receipt = scenarioReceipt,
                   latestBlockHash = Some ''H1''\<rparr>])
   \<and> length (emitted (snd (run (fst (watchByPolling (scenarioProps 24 False)))
         [Tick, Fetched (Some (blockAt 101)), Fetched (Some (blockAt 102))]))) \<le> 1"
proof -
  have h: "blockNumber (transactionReceipt (scenarioProps 24 False)) = Some 100"
    by (simp add: scenario_defs)
  have t: "transactionConfirmationBlocks (web3Context (scenarioProps 24 False)) = 24"
    by (simp add: scenario_defs)
  have v: "step (Polling (scenarioProps 24 False) 1 True 1) (Fetched (Some (blockAt 101)))
       = (Polling (scenarioProps 24 False) 2 True 0,
          [Emit 7 \<lparr>confirmationNumber = 2, receipt = scenarioReceipt,
                   latestBlockHash = Some ''H1''\<rparr>])"
    by (simp add: scenario_defs code_defs)
  have c: "count_list [Tick, Fetched (Some (blockAt 101)), Fetched (Some (blockAt 102))] Tick = 1"
    by simp
  from C9_one_fetch_one_step_per_tick [OF h, of 1 0 True "Some (blockAt 101)"
      "[Tick, Fetched (Some (blockAt 101)), Fetched (Some (blockAt 102))]"] h t v c
  show ?thesis by simp
qed

text \<open>
  Claim C10. With the block hash of the receipt present, the call and everything
  the watch does afterwards are the same for any two transaction hashes; the transaction
  hash shows only in the payload of \<^verbatim>\<open>TransactionMissingReceiptOrBlockHashError\<close>.
\<close>

theorem C10_transaction_hash_irrelevant:
  "(blockHash r \<noteq> None \<longrightarrow>
      watchTransactionForConfirmations ctx promiEvent (Some r) txHash1 fmt
        = watchTransactionForConfirmations ctx promiEvent (Some r) txHash2 fmt
      \<and> watch_run ctx promiEvent (Some r) txHash1 fmt ins
        = watch_run ctx promiEvent (Some r) txHash2 fmt ins)
   \<and> (blockHash r = None \<longrightarrow>
      watchTransactionForConfirmations ctx promiEvent (Some r) txHash1 fmt
        = Inl (TransactionMissingReceiptOrBlockHashError (Some r) None (Some txHash1)))"
  by (auto simp: watch_run_def watchTransactionForConfirmations_def format_bytes32_def)

theorem C10_transaction_hash_irrelevant_witness:
  "watch_run (scenarioContext 3 False) 7 (Some scenarioReceipt) ''0xaa'' FMT_HEX
       [Tick, Fetched (Some (blockAt 101))]
     = watch_run (scenarioContext 3 False) 7 (Some scenarioReceipt) ''0xbb'' FMT_HEX
       [Tick, Fetched (Some (blockAt 101))]
   \<and> watchTransactionForConfirmations (scenarioContext 3 False) 7
        (Some \<lparr>blockHash = None, blockNumber = Some 100\<rparr>) ''0xaa'' FMT_HEX
     = Inl (TransactionMissingReceiptOrBlockHashError
             (Some \<lparr>blockHash = None, blockNumber = Some 100\<rparr>) None (Some ''0xaa''))"
proof -
  have h1: "blockHash scenarioReceipt \<noteq> None" by (simp add: scenario_defs)
  have h2: "blockHash \<lparr>blockHash = None, blockNumber = Some 100\<rparr> = None" by simp
  from C10_transaction_hash_irrelevant [of scenarioReceipt "scenarioContext 3 False" 7 "''0xaa''"
      FMT_HEX "''0xbb''" "[Tick, Fetched (Some (blockAt 101))]"] h1
    C10_transaction_hash_irrelevant [of "\<lparr>blockHash = None, blockNumber = Some 100\<rparr>"
      "scenarioContext 3 False" 7 "''0xaa''" FMT_HEX "''0xbb''" "[]"] h2
  show ?thesis by blast
qed

end
